theory Spec2Isabelle
  imports Complex_Main "HOL-Library.Multiset"
begin

section \<open>paper-fusion: the file list, intake and merge of \<open>script.js\<close>\<close>

text \<open>
  The script keeps one global, \<open>filesArr\<close>, an array of record objects, and reacts to
  user events: a batch of files picked or dropped (\<open>handleFiles\<close>), a drag that reorders
  the list (\<open>onEnd\<close>), a click on a remove button, on the merge button, on the clear button
  and on the Undo action of a notification. Each handler is modelled as a function from
  the state before the event to the state after it together with what the handler shows
  (notifications, progress widths, the download); a handler runs from start to end
  without another one interleaving.

  The libraries the script calls are parameters of the model, collected in \<open>env\<close>:
  the PDF library (\<open>PDFDocument.load\<close> and \<open>save\<close>), \<open>crypto.subtle.digest\<close> and
  \<open>Math.random\<close>. A PDF document is the list of its pages.

  The record objects live in a store, because the handlers share them: \<open>filesArr\<close> and
  the array captured by the Undo closure hold references to the same objects, and
  \<open>cleanupMemory\<close> writes to those objects.
\<close>

subsection \<open>Configuration constants\<close>

definition MAX_FILE_SIZE :: nat where
  "MAX_FILE_SIZE = 100 * 1024 * 1024"

definition MAX_TOTAL_SIZE :: nat where
  "MAX_TOTAL_SIZE = 500 * 1024 * 1024"

definition MAX_FILE_COUNT :: nat where
  "MAX_FILE_COUNT = 50"

definition LARGE_OUTPUT_THRESHOLD :: nat where
  "LARGE_OUTPUT_THRESHOLD = 200"

subsection \<open>Strings and numbers\<close>

type_synonym bytes = "char list"

text \<open>
  The digits of a number printed in base 10 or 16, and a non-negative integer printed in
  decimal, as a template literal does.
\<close>

definition digitChar :: "nat \<Rightarrow> char" where
  "digitChar d = ''0123456789abcdef'' ! d"

fun showNat :: "nat \<Rightarrow> string" where
  "showNat n = (if n < 10 then [digitChar n] else showNat (n div 10) @ [digitChar (n mod 10)])"

declare showNat.simps [simp del]

text \<open>\<open>s.padStart(2, '0')\<close>\<close>

definition padStart2 :: "string \<Rightarrow> string" where
  "padStart2 s = replicate (2 - length s) (CHR ''0'') @ s"

text \<open>
  \<open>s.slice(i, j)\<close> for \<open>0 \<le> i \<le> j\<close>, \<open>s.startsWith(p)\<close>, \<open>s.endsWith(p)\<close> and
  \<open>s.includes(p)\<close>
\<close>

definition slice :: "nat \<Rightarrow> nat \<Rightarrow> string \<Rightarrow> string" where
  "slice i j s = take (j - i) (drop i s)"

definition startsWith :: "string \<Rightarrow> string \<Rightarrow> bool" where
  "startsWith s p = (take (length p) s = p)"

definition endsWith :: "string \<Rightarrow> string \<Rightarrow> bool" where
  "endsWith s p = (length p \<le> length s \<and> drop (length s - length p) s = p)"

definition includes_str :: "string \<Rightarrow> string \<Rightarrow> bool" where
  "includes_str s p = list_ex (\<lambda>i. take (length p) (drop i s) = p) [0..<Suc (length s)]"

text \<open>
  \<open>s.toLowerCase()\<close> on the letters A to Z. No other character lowers to one of
  \<open>.\<close>, \<open>p\<close>, \<open>d\<close>, \<open>f\<close>, which is all the script looks for in the result.
\<close>

definition lowerChar :: "char \<Rightarrow> char" where
  "lowerChar c = (let n = (of_char c :: nat) in if 65 \<le> n \<and> n \<le> 90 then char_of (n + 32) else c)"

definition toLowerCase :: "string \<Rightarrow> string" where
  "toLowerCase s = map lowerChar s"

text \<open>
  \<open>formatBytes\<close>. The repeated division by 1024 is exact in double precision for a
  byte count, so the value printed by \<open>toFixed\<close> is the quotient \<open>bytes / 1024 ^ (i + 1)\<close>
  rounded half up to \<open>d\<close> decimals. \<open>formatBytesLoop\<close> is the do-while loop: it returns the
  final index \<open>i\<close>, starting from the index and the divisor reached so far.
\<close>

definition units :: "string list" where
  "units = [''KB'', ''MB'', ''GB'', ''TB'']"

fun formatBytesLoop :: "nat \<Rightarrow> nat \<Rightarrow> nat \<Rightarrow> nat" where
  "formatBytesLoop bytes i 0 = i"
| "formatBytesLoop bytes i (Suc fuel) =
     (if bytes \<ge> 1024 * 1024 ^ (i + 1) \<and> i < length units - 1
      then formatBytesLoop bytes (i + 1) fuel else i)"

definition toFixed :: "nat \<Rightarrow> nat \<Rightarrow> nat \<Rightarrow> string" where
  "toFixed num den d =
     (let n = (2 * num * 10 ^ d + den) div (2 * den);
          frac = showNat (n mod 10 ^ d)
      in showNat (n div 10 ^ d) @ ''.'' @ replicate (d - length frac) (CHR ''0'') @ frac)"

definition formatBytes :: "nat \<Rightarrow> string" where
  "formatBytes bytes =
     (if bytes < 1024 then showNat bytes @ '' B''
      else let i = formatBytesLoop bytes 0 (length units);
               den = 1024 ^ (i + 1)
           in toFixed bytes den (if bytes < 10 * den then 2 else 1) @ '' '' @ units ! i)"

subsection \<open>Files, records and the store\<close>

text \<open>
  A browser \<open>File\<close>: its name, size and declared type, and what \<open>arrayBuffer()\<close> resolves
  to (\<open>Inr\<close> the content) or rejects with (\<open>Inl\<close> the message of the error).
\<close>

record File =
  name_f :: string
  size_f :: nat
  type_f :: string
  arrayBuffer :: "string + bytes"

text \<open>
  The objects pushed on \<open>filesArr\<close>. \<open>rawBytes\<close> is \<open>None\<close> once it has been set to
  \<open>null\<close>; \<open>hash\<close> is \<open>None\<close> when \<open>hashFile\<close> returned \<open>null\<close>.
\<close>

record FileRecord =
  file_r :: File
  name :: string
  size_r :: nat
  pageCount :: nat
  id_r :: string
  rawBytes :: "bytes option"
  hash :: "string option"

type_synonym addr = nat

datatype toastType = success | error | info

text \<open>
  The argument of \<open>showToast\<close>. The only \<open>onAction\<close> closure in the script is the Undo of
  the clear button; it is represented by the array \<open>previousFiles\<close> it has captured.
\<close>

record toast =
  title :: string
  message :: string
  type_t :: toastType
  timeoutMs :: nat
  actionLabel :: "string option"
  onAction :: "addr list option"

definition showToast :: "string \<Rightarrow> string \<Rightarrow> toastType \<Rightarrow> nat \<Rightarrow> toast" where
  "showToast ti msg ty ms =
     \<lparr>title = ti, message = msg, type_t = ty, timeoutMs = ms, actionLabel = None, onAction = None\<rparr>"

text \<open>
  The state: the store of record objects (\<open>heap\<close>, with \<open>nextAddr\<close> the next free
  address), the global \<open>filesArr\<close> as the list of the addresses it holds, and the number
  of calls made to \<open>Math.random\<close> so far.
\<close>

record state =
  heap :: "addr \<Rightarrow> FileRecord"
  nextAddr :: addr
  filesArr :: "addr list"
  randomCalls :: nat

text \<open>
  The environment: \<open>pdfLoad\<close> is \<open>PDFLib.PDFDocument.load\<close> with the options the script
  passes (the pages of the document, or the message of the error thrown), \<open>pdfSave\<close> is
  \<open>save\<close>, \<open>digest\<close> is \<open>crypto.subtle.digest('SHA-256', _)\<close> (\<open>None\<close> when it
  throws) and \<open>random36 k\<close> is \<open>Math.random().toString(36)\<close> at the \<open>k\<close>-th call.
\<close>

record 'p env =
  pdfLoad :: "bytes \<Rightarrow> string + 'p list"
  pdfSave :: "'p list \<Rightarrow> string + bytes"
  digest :: "bytes \<Rightarrow> bytes option"
  random36 :: "nat \<Rightarrow> string"

definition blank :: FileRecord where
  "blank = \<lparr>file_r = \<lparr>name_f = [], size_f = 0, type_f = [], arrayBuffer = Inr []\<rparr>,
            name = [], size_r = 0, pageCount = 0, id_r = [], rawBytes = None, hash = None\<rparr>"

text \<open>At load time \<open>filesArr\<close> is empty and no object has been created.\<close>

definition init :: state where
  "init = \<lparr>heap = (\<lambda>_. blank), nextAddr = 0, filesArr = [], randomCalls = 0\<rparr>"

text \<open>The records of the list, in list order.\<close>

definition records :: "state \<Rightarrow> FileRecord list" where
  "records st = map (heap st) (filesArr st)"

subsection \<open>Helpers of the script\<close>

text \<open>\<open>uid()\<close>: \<open>Math.random().toString(36).slice(2,9)\<close>\<close>

definition uid :: "'p env \<Rightarrow> state \<Rightarrow> string \<times> state" where
  "uid env st =
     (slice 2 9 (random36 env (randomCalls st)), st\<lparr>randomCalls := Suc (randomCalls st)\<rparr>)"

text \<open>\<open>b.toString(16).padStart(2, '0')\<close> for a byte\<close>

definition byteHex :: "char \<Rightarrow> string" where
  "byteHex b = (let n = (of_char b :: nat) in
     padStart2 (if n < 16 then [digitChar n] else [digitChar (n div 16), digitChar (n mod 16)]))"

definition hashFile :: "'p env \<Rightarrow> bytes \<Rightarrow> string option" where
  "hashFile env buffer =
     (case digest env buffer of
        None \<Rightarrow> None
      | Some hashBuffer \<Rightarrow> Some (concat (map byteHex hashBuffer)))"

definition validateFile :: "File \<Rightarrow> string list" where
  "validateFile f =
     (if size_f f > MAX_FILE_SIZE
      then [''File exceeds '' @ formatBytes MAX_FILE_SIZE @ '' limit''] else []) @
     (if size_f f = 0 then [''File is empty''] else [])"

definition getTotalSize :: "state \<Rightarrow> nat" where
  "getTotalSize st = foldl (\<lambda>sum f. sum + size_r f) 0 (records st)"

subsection \<open>File intake: \<open>handleFiles\<close>\<close>

text \<open>The predicate of \<open>files.filter\<close>, with the source's two local constants.\<close>

definition isPdf :: "File \<Rightarrow> bool" where
  "isPdf f =
     (let name = toLowerCase (name_f f);
          hasPdfExtension = endsWith name ''.pdf'';
          hasPdfType = (type_f f = ''application/pdf'' \<or> type_f f = [])
      in hasPdfExtension \<or> (hasPdfType \<and> type_f f = ''application/pdf''))"

text \<open>The message chosen in the \<open>catch\<close> block of the loop from the message of the error.\<close>

definition userMessage :: "string \<Rightarrow> string" where
  "userMessage errorMsg =
     (if includes_str errorMsg ''encrypted'' then ''File is encrypted or password protected''
      else if includes_str errorMsg ''Invalid'' \<or> includes_str errorMsg ''invalid''
        then ''Not a valid PDF file''
      else if includes_str errorMsg ''header'' then ''File appears to be corrupted''
      else if includes_str errorMsg ''arrayBuffer'' then ''Failed to read file data''
      else ''Failed to process file'')"

definition cannotProcessToast :: "File \<Rightarrow> string \<Rightarrow> toast" where
  "cannotProcessToast f errorMsg =
     showToast ''Cannot process file'' (name_f f @ '': '' @ userMessage errorMsg) error 4000"

text \<open>
  What one iteration of the loop over \<open>pdfs\<close> does to the three counters, or that it
  leaves the loop.
\<close>

datatype outcome = Added | Skipped | Errored | Break

text \<open>
  The predicate of \<open>filesArr.find\<close> in the duplicate check. \<open>hash && \<dots>\<close> is false for
  \<open>null\<close> and for the empty string.
\<close>

definition isDuplicate :: "string option \<Rightarrow> File \<Rightarrow> FileRecord \<Rightarrow> bool" where
  "isDuplicate h f x =
     ((h \<noteq> None \<and> h \<noteq> Some [] \<and> hash x = h) \<or> (name x = name_f f \<and> size_r x = size_f f))"

text \<open>
  The body of the loop, for one file. The \<open>try\<close> block has two calls that can throw
  (\<open>file.arrayBuffer()\<close> and \<open>PDFDocument.load\<close>); both end in the \<open>catch\<close> block.
\<close>

definition processFile :: "'p env \<Rightarrow> File \<Rightarrow> state \<Rightarrow> state \<times> outcome \<times> toast list" where
  "processFile env f st =
     (case validateFile f of
        e # _ \<Rightarrow> (st, Errored, [showToast ''Invalid file'' (name_f f @ '': '' @ e) error 3500])
      | [] \<Rightarrow>
        if getTotalSize st + size_f f > MAX_TOTAL_SIZE
        then (st, Break, [showToast ''Size limit exceeded''
                (''Total size would exceed '' @ formatBytes MAX_TOTAL_SIZE) error 2500])
        else
          (case arrayBuffer f of
             Inl err \<Rightarrow> (st, Errored, [cannotProcessToast f err])
           | Inr bytes \<Rightarrow>
             (let h = hashFile env bytes;
                  existing = find (\<lambda>a. isDuplicate h f (heap st a)) (filesArr st)
              in if existing \<noteq> None then (st, Skipped, [])
                 else if \<not> startsWith (take 5 bytes) ''%PDF-''
                 then (st, Errored, [showToast ''Invalid file''
                         (name_f f @ '' is not a valid PDF file'') error 3500])
                 else
                   (case pdfLoad env bytes of
                      Inl err \<Rightarrow> (st, Errored, [cannotProcessToast f err])
                    | Inr pdfDoc \<Rightarrow>
                      (let pages = length pdfDoc;
                           (i, st1) = uid env st;
                           r = \<lparr>file_r = f, name = name_f f, size_r = size_f f, pageCount = pages,
                                id_r = i, rawBytes = Some bytes, hash = h\<rparr>;
                           a = nextAddr st1
                       in (st1\<lparr>heap := (heap st1)(a := r), nextAddr := Suc a,
                                filesArr := filesArr st1 @ [a]\<rparr>, Added, []))))))"

text \<open>The three counters \<open>addedCount\<close>, \<open>skippedCount\<close>, \<open>errorCount\<close>.\<close>

record counts =
  addedCount :: nat
  skippedCount :: nat
  errorCount :: nat

definition tally :: "outcome \<Rightarrow> counts \<Rightarrow> counts" where
  "tally out c =
     (case out of
        Added \<Rightarrow> c\<lparr>addedCount := addedCount c + 1\<rparr>
      | Skipped \<Rightarrow> c\<lparr>skippedCount := skippedCount c + 1\<rparr>
      | Errored \<Rightarrow> c\<lparr>errorCount := errorCount c + 1\<rparr>
      | Break \<Rightarrow> c)"

text \<open>The loop \<open>for (const file of pdfs)\<close>; \<open>Break\<close> leaves it.\<close>

fun processFiles :: "'p env \<Rightarrow> File list \<Rightarrow> state \<Rightarrow> counts \<Rightarrow> state \<times> counts \<times> toast list" where
  "processFiles env [] st c = (st, c, [])"
| "processFiles env (f # fs) st c =
     (case processFile env f st of
        (st1, Break, ts) \<Rightarrow> (st1, c, ts)
      | (st1, out, ts) \<Rightarrow>
          (case processFiles env fs st1 (tally out c) of
             (st2, c2, ts2) \<Rightarrow> (st2, c2, ts @ ts2)))"

text \<open>The notification after the loop.\<close>

definition feedback :: "counts \<Rightarrow> toast list" where
  "feedback c =
     (if addedCount c > 0 then
        (let msg = showNat (addedCount c) @ '' file'' @ (if addedCount c > 1 then ''s'' else [])
                     @ '' added.'';
             msg2 = (if skippedCount c > 0
                     then msg @ '' '' @ showNat (skippedCount c) @ '' duplicate''
                            @ (if skippedCount c > 1 then ''s'' else []) @ '' skipped.''
                     else msg)
         in [showToast ''Files added'' msg2 success 2500])
      else if skippedCount c > 0 then
        [showToast ''No new files''
           (''All '' @ showNat (skippedCount c) @ '' file''
              @ (if skippedCount c > 1 then ''s were'' else '' was'') @ '' already added.'')
           info 2500]
      else [])"

definition handleFiles :: "'p env \<Rightarrow> File list \<Rightarrow> state \<Rightarrow> state \<times> toast list" where
  "handleFiles env files st =
     (if files = [] then (st, [])
      else
        (let pdfs = filter isPdf files in
         if pdfs = []
         then (st, [showToast ''Unsupported files'' ''Please add PDF files only.'' error 2500])
         else if length (filesArr st) + length pdfs > MAX_FILE_COUNT
         then (st, [showToast ''Too many files''
                 (''Maximum '' @ showNat MAX_FILE_COUNT @ '' files allowed. You tried to add ''
                    @ showNat (length pdfs) @ '' more.'') error 2500])
         else
           (case processFiles env pdfs st \<lparr>addedCount = 0, skippedCount = 0, errorCount = 0\<rparr> of
              (st1, c, ts) \<Rightarrow> (st1, ts @ feedback c))))"

subsection \<open>The list: remove and reorder\<close>

text \<open>
  The click handler of the remove button of the item rendered for the object at address
  \<open>a\<close>. The closure holds that object as \<open>f\<close> and reads \<open>f.id\<close> and \<open>f.name\<close>.
\<close>

definition removeClick :: "addr \<Rightarrow> state \<Rightarrow> state \<times> toast list" where
  "removeClick a st =
     (let f = heap st a;
          removed = find (\<lambda>x. id_r (heap st x) = id_r f) (filesArr st);
          h1 = (case removed of
                  None \<Rightarrow> heap st
                | Some x \<Rightarrow> if rawBytes (heap st x) \<noteq> None
                            then (heap st)(x := (heap st x)\<lparr>rawBytes := None\<rparr>) else heap st)
      in (st\<lparr>heap := h1, filesArr := filter (\<lambda>x. id_r (h1 x) \<noteq> id_r f) (filesArr st)\<rparr>,
          [showToast ''Removed'' (name f @ '' removed'') info 2000]))"

text \<open>
  \<open>onEnd\<close> of the drag library, with \<open>evt.oldIndex\<close> and \<open>evt.newIndex\<close>:
  \<open>filesArr.splice(from,1)[0]\<close> takes the element out, \<open>filesArr.splice(to,0,moved)\<close> puts it
  back before position \<open>to\<close> (at the end when \<open>to\<close> is beyond it). The library reports
  positions of items of the list; for \<open>from\<close> outside the list the first splice removes
  nothing, the second one inserts \<open>undefined\<close> and the rendering that follows throws: this
  is the result \<open>None\<close>.
\<close>

definition onEnd :: "nat \<Rightarrow> nat \<Rightarrow> state \<Rightarrow> state option" where
  "onEnd from to st =
     (if from < length (filesArr st)
      then (let moved = filesArr st ! from;
                rest = take from (filesArr st) @ drop (Suc from) (filesArr st)
            in Some (st\<lparr>filesArr := take to rest @ [moved] @ drop to rest\<rparr>))
      else None)"

subsection \<open>Merge\<close>

text \<open>
  \<open>Math.round\<close> rounds half up. The script computes the quotient in double precision;
  the model computes it in the rationals.
\<close>

definition Math_round :: "rat \<Rightarrow> int" where
  "Math_round x = \<lfloor>x + 1 / 2\<rfloor>"

text \<open>The width given to the progress bar, in percent.\<close>

definition progressWidth :: "nat \<Rightarrow> nat \<Rightarrow> int" where
  "progressWidth added totalPages = Math_round ((of_nat added / of_nat (max 1 totalPages)) * 100)"

text \<open>\<open>src.getPageIndices()\<close> and \<open>outPdf.copyPages(src, indices)\<close> of the PDF library.\<close>

definition getPageIndices :: "'p list \<Rightarrow> nat list" where
  "getPageIndices src = [0..<length src]"

definition copyPages :: "'p list \<Rightarrow> nat list \<Rightarrow> 'p list" where
  "copyPages src indices = map (\<lambda>i. src ! i) indices"

text \<open>\<open>PDFDocument.load(item.rawBytes, \<dots>)\<close>: the library throws when given \<open>null\<close>.\<close>

definition loadRaw :: "'p env \<Rightarrow> bytes option \<Rightarrow> string + 'p list" where
  "loadRaw env raw =
     (case raw of
        None \<Rightarrow> Inl ''pdf must be of type string or Uint8Array or ArrayBuffer, but was actually of type null''
      | Some b \<Rightarrow> pdfLoad env b)"

text \<open>
  The loop \<open>for (const item of filesArr)\<close>, from the output document and the counter
  \<open>added\<close> reached so far: the output document and counter at the end, the widths given
  to the progress bar and the notifications shown, in order.
\<close>

fun mergeItems ::
  "'p env \<Rightarrow> (addr \<Rightarrow> FileRecord) \<Rightarrow> nat \<Rightarrow> addr list \<Rightarrow> 'p list \<Rightarrow> nat
     \<Rightarrow> 'p list \<times> nat \<times> int list \<times> toast list" where
  "mergeItems env h totalPages [] outPdf added = (outPdf, added, [], [])"
| "mergeItems env h totalPages (a # as) outPdf added =
     (let item = h a in
      case loadRaw env (rawBytes item) of
        Inl itemErr \<Rightarrow>
          (case mergeItems env h totalPages as outPdf added of
             (out, n, ws, ts) \<Rightarrow>
               (out, n, ws,
                showToast ''Partial failure'' (''Skipped '' @ name item @ '' due to error'')
                  error 3500 # ts))
      | Inr src \<Rightarrow>
          (let srcPages = copyPages src (getPageIndices src);
               outPdf1 = outPdf @ srcPages;
               added1 = added + (if pageCount item \<noteq> 0 then pageCount item else length srcPages)
           in case mergeItems env h totalPages as outPdf1 added1 of
                (out, n, ws, ts) \<Rightarrow> (out, n, progressWidth added1 totalPages # ws, ts)))"

text \<open>
  \<open>cleanupMemory\<close>: the body of its \<open>forEach\<close>, on the object at address \<open>a\<close>, and the
  function. The hint to the garbage collector has no effect on the state.
\<close>

definition releaseItem :: "addr \<Rightarrow> (addr \<Rightarrow> FileRecord) \<Rightarrow> (addr \<Rightarrow> FileRecord)" where
  "releaseItem a h = (if rawBytes (h a) \<noteq> None then h(a := (h a)\<lparr>rawBytes := None\<rparr>) else h)"

definition cleanupMemory :: "state \<Rightarrow> state" where
  "cleanupMemory st = st\<lparr>heap := fold releaseItem (filesArr st) (heap st)\<rparr>"

text \<open>The fields of \<open>new Date()\<close> that the file name uses.\<close>

record date =
  getFullYear :: nat
  getMonth :: nat
  getDate :: nat
  getHours :: nat
  getMinutes :: nat

definition timestamp :: "date \<Rightarrow> string" where
  "timestamp now =
     showNat (getFullYear now) @ padStart2 (showNat (getMonth now + 1))
       @ padStart2 (showNat (getDate now)) @ ''_'' @ padStart2 (showNat (getHours now))
       @ padStart2 (showNat (getMinutes now))"

text \<open>
  What a click on the merge button shows: the widths given to the progress bar in order
  (the last one by the timer of the \<open>finally\<close> block), the notifications, and the
  download (the bytes and the file name) when there is one.
\<close>

record mergeOutput =
  widths :: "int list"
  toasts :: "toast list"
  download :: "(bytes \<times> string) option"

definition mergeFailed :: "string \<Rightarrow> toast" where
  "mergeFailed errorMsg =
     showToast ''Merge failed''
       (if length errorMsg > 100 then take 97 errorMsg @ ''...'' else errorMsg) error 5000"

text \<open>\<open>totalPages\<close>, the sum computed when the merge button is clicked.\<close>

definition totalPages :: "state \<Rightarrow> nat" where
  "totalPages st = foldl (\<lambda>s f. s + pageCount f) 0 (records st)"

text \<open>
  The click handler of the merge button. \<open>proceed\<close> is the answer to the \<open>confirm\<close>
  dialog, asked only above the threshold; \<open>now\<close> is the date read for the file name.
  Creating the empty output document does not fail.
\<close>

definition mergeClick :: "'p env \<Rightarrow> bool \<Rightarrow> date \<Rightarrow> state \<Rightarrow> state \<times> mergeOutput" where
  "mergeClick env proceed now st =
     (if filesArr st = [] then (st, \<lparr>widths = [], toasts = [], download = None\<rparr>)
      else
        (if totalPages st > LARGE_OUTPUT_THRESHOLD \<and> \<not> proceed
         then (st, \<lparr>widths = [], toasts = [], download = None\<rparr>)
         else
           (case mergeItems env (heap st) (totalPages st) (filesArr st) [] 0 of
              (outPdf, added, ws, ts) \<Rightarrow>
                if added = 0
                then (st, \<lparr>widths = 0 # ws @ [0],
                           toasts = ts @ [mergeFailed ''No pages were successfully merged''],
                           download = None\<rparr>)
                else
                  (case pdfSave env outPdf of
                     Inl err \<Rightarrow>
                       (st, \<lparr>widths = 0 # ws @ [0], toasts = ts @ [mergeFailed err],
                             download = None\<rparr>)
                   | Inr mergedBytes \<Rightarrow>
                       (let filename = ''merged-'' @ timestamp now @ ''.pdf'' in
                        (cleanupMemory st,
                         \<lparr>widths = 0 # ws @ [100, 0],
                          toasts = ts @ [showToast ''Success!''
                            (''Merged '' @ showNat added @ '' pages into '' @ filename)
                            success 4000],
                          download = Some (mergedBytes, filename)\<rparr>))))))"

subsection \<open>Clear and undo\<close>

text \<open>
  The click handler of the clear button. \<open>previousFiles\<close> is a copy of the array, holding
  the same objects; the Undo closure of the notification keeps it.
\<close>

definition clearClick :: "state \<Rightarrow> state \<times> toast list" where
  "clearClick st =
     (if filesArr st = [] then (st, [])
      else
        (let previousFiles = filesArr st;
             st1 = cleanupMemory st
         in (st1\<lparr>filesArr := []\<rparr>,
             [\<lparr>title = ''Cleared'', message = ''All files removed.'', type_t = success,
               timeoutMs = 2500, actionLabel = Some ''Undo'',
               onAction = Some previousFiles\<rparr>])))"

text \<open>
  A click on the action button of a notification runs its \<open>onAction\<close>: for Undo,
  \<open>filesArr = previousFiles\<close>. The button exists only when the notification has both
  an \<open>actionLabel\<close> and an \<open>onAction\<close>.
\<close>

definition actionClick :: "toast \<Rightarrow> state \<Rightarrow> state \<times> toast list" where
  "actionClick t st =
     (case (actionLabel t, onAction t) of
        (Some l, Some previousFiles) \<Rightarrow>
          (st\<lparr>filesArr := previousFiles\<rparr>,
           [showToast ''Restored'' ''Files restored.'' success 2500])
      | _ \<Rightarrow> (st, []))"

subsection \<open>The states the page can reach\<close>

text \<open>
  \<open>reachable env st shown\<close>: after some sequence of events the state is \<open>st\<close> and the
  notifications on the screen are \<open>shown\<close>. A notification leaves the screen when its
  timer expires or when its action button is clicked. The remove button clicked belongs
  to an item of the list, and the drag library reports the position of an item.
\<close>

inductive reachable :: "'p env \<Rightarrow> state \<Rightarrow> toast list \<Rightarrow> bool" for env :: "'p env" where
  start: "reachable env init []"
| files: "reachable env st shown \<Longrightarrow> handleFiles env fs st = (st', ts)
     \<Longrightarrow> reachable env st' (shown @ ts)"
| remove: "reachable env st shown \<Longrightarrow> a \<in> set (filesArr st) \<Longrightarrow> removeClick a st = (st', ts)
     \<Longrightarrow> reachable env st' (shown @ ts)"
| drag: "reachable env st shown \<Longrightarrow> onEnd from to st = Some st' \<Longrightarrow> reachable env st' shown"
| merge: "reachable env st shown \<Longrightarrow> mergeClick env proceed now st = (st', out)
     \<Longrightarrow> reachable env st' (shown @ toasts out)"
| clear: "reachable env st shown \<Longrightarrow> clearClick st = (st', ts)
     \<Longrightarrow> reachable env st' (shown @ ts)"
| action: "reachable env st shown \<Longrightarrow> t \<in> set shown \<Longrightarrow> actionClick t st = (st', ts)
     \<Longrightarrow> reachable env st' (remove1 t shown @ ts)"
| expire: "reachable env st shown \<Longrightarrow> reachable env st (remove1 t shown)"

subsection \<open>Notions used in the statements and proofs\<close>

text \<open>The state after \<open>filesArr.push\<close> of a new object \<open>r\<close>, and the object that intake builds.\<close>

definition push :: "FileRecord \<Rightarrow> state \<Rightarrow> state" where
  "push r st = st\<lparr>randomCalls := Suc (randomCalls st),
      heap := (heap st)(nextAddr st := r), nextAddr := Suc (nextAddr st),
      filesArr := filesArr st @ [nextAddr st]\<rparr>"

definition newRecord :: "'p env \<Rightarrow> state \<Rightarrow> File \<Rightarrow> bytes \<Rightarrow> nat \<Rightarrow> FileRecord" where
  "newRecord env st f b n = \<lparr>file_r = f, name = name_f f, size_r = size_f f, pageCount = n,
      id_r = slice 2 9 (random36 env (randomCalls st)), rawBytes = Some b,
      hash = hashFile env b\<rparr>"

text \<open>A record whose byte buffer has been released.\<close>

definition release :: "FileRecord \<Rightarrow> FileRecord" where
  "release r = r\<lparr>rawBytes := None\<rparr>"

text \<open>
  The pages that the merge copies from a record: those of the document its bytes load
  to, none when the load throws.
\<close>

definition pagesOf :: "'p env \<Rightarrow> FileRecord \<Rightarrow> 'p list" where
  "pagesOf env r = (case loadRaw env (rawBytes r) of Inl e \<Rightarrow> [] | Inr src \<Rightarrow> src)"



text \<open>The list after \<open>move(from, to)\<close>.\<close>

definition move :: "nat \<Rightarrow> nat \<Rightarrow> 'a list \<Rightarrow> 'a list" where
  "move from to xs =
     (let rest = take from xs @ drop (Suc from) xs in take to rest @ [xs ! from] @ drop to rest)"

text \<open>
  The invariant of the reachable states. An array of addresses is in order when its
  addresses are different, allocated, and the sizes of their objects sum to at most the
  ceiling; an object at address \<open>a\<close> is in order when its id is the \<open>a\<close>-th one drawn
  and, while it has its bytes, they load to as many pages as \<open>pageCount\<close> says.
\<close>

definition totalOf :: "state \<Rightarrow> addr list \<Rightarrow> nat" where
  "totalOf st p = sum_list (map (\<lambda>a. size_r (heap st a)) p)"

definition listOK :: "state \<Rightarrow> addr list \<Rightarrow> bool" where
  "listOK st p = (distinct p \<and> (\<forall>a\<in>set p. a < nextAddr st) \<and> totalOf st p \<le> MAX_TOTAL_SIZE)"

definition cellOK :: "'p env \<Rightarrow> addr \<Rightarrow> FileRecord \<Rightarrow> bool" where
  "cellOK env a r = (id_r r = slice 2 9 (random36 env a) \<and>
     (\<forall>b. rawBytes r = Some b \<longrightarrow> (\<exists>ps. pdfLoad env b = Inr ps \<and> pageCount r = length ps)))"

definition invariant :: "'p env \<Rightarrow> state \<Rightarrow> toast list \<Rightarrow> bool" where
  "invariant env st shown = (listOK st (filesArr st) \<and> randomCalls st = nextAddr st \<and>
     (\<forall>a<nextAddr st. cellOK env a (heap st a)) \<and>
     (\<forall>t\<in>set shown. \<forall>p. onAction t = Some p \<longrightarrow> listOK st p))"

text \<open>
  \<open>extends env st st'\<close>: from \<open>st\<close> to \<open>st'\<close> the objects have stayed as they were or have
  lost their bytes, and the new ones are in order.
\<close>

definition extends :: "'p env \<Rightarrow> state \<Rightarrow> state \<Rightarrow> bool" where
  "extends env st st' = (nextAddr st \<le> nextAddr st' \<and>
     (\<forall>a<nextAddr st. heap st' a = heap st a \<or> heap st' a = release (heap st a)) \<and>
     (\<forall>a. nextAddr st \<le> a \<and> a < nextAddr st' \<longrightarrow> cellOK env a (heap st' a)))"

subsection \<open>An example environment and example files\<close>

text \<open>
  A toy PDF library for the examples: a document is the signature \<open>%PDF-\<close> followed by
  one byte for each page, and a page is its byte. The digest of a buffer is the buffer
  itself, and the \<open>k\<close>-th random number prints as \<open>0.\<close> followed by \<open>k\<close>.
\<close>

definition demoEnv :: "char env" where
  "demoEnv = \<lparr>pdfLoad = (\<lambda>b. if startsWith b ''%PDF-'' then Inr (drop 5 b)
                            else Inl ''Invalid PDF structure''),
              pdfSave = (\<lambda>ps. Inr (''%PDF-'' @ ps)),
              digest = (\<lambda>b. Some b),
              random36 = (\<lambda>k. ''0.'' @ showNat k)\<rparr>"

definition notes_txt :: File where
  "notes_txt = \<lparr>name_f = ''notes.txt'', size_f = 5, type_f = [], arrayBuffer = Inr ''hello''\<rparr>"

text \<open>
  Three one-page files, the records intake makes of them, the state after intake of the
  three into the empty list, and a date.
\<close>

definition a_pdf :: File where
  "a_pdf = \<lparr>name_f = ''a.pdf'', size_f = 6, type_f = ''application/pdf'', arrayBuffer = Inr ''%PDF-A''\<rparr>"
definition b_pdf :: File where
  "b_pdf = \<lparr>name_f = ''b.pdf'', size_f = 6, type_f = ''application/pdf'', arrayBuffer = Inr ''%PDF-B''\<rparr>"
definition c_pdf :: File where
  "c_pdf = \<lparr>name_f = ''c.pdf'', size_f = 6, type_f = ''application/pdf'', arrayBuffer = Inr ''%PDF-C''\<rparr>"

definition recordOf :: "File \<Rightarrow> bytes \<Rightarrow> nat \<Rightarrow> nat \<Rightarrow> FileRecord" where
  "recordOf f b n k = \<lparr>file_r = f, name = name_f f, size_r = size_f f, pageCount = n,
     id_r = showNat k, rawBytes = Some b, hash = hashFile demoEnv b\<rparr>"

definition abc :: state where
  "abc = \<lparr>heap = (\<lambda>_. blank)(0 := recordOf a_pdf ''%PDF-A'' 1 0, 1 := recordOf b_pdf ''%PDF-B'' 1 1,
              2 := recordOf c_pdf ''%PDF-C'' 1 2),
          nextAddr = 3, filesArr = [0, 1, 2], randomCalls = 3\<rparr>"

definition jan5 :: date where
  "jan5 = \<lparr>getFullYear = 2024, getMonth = 0, getDate = 5, getHours = 9, getMinutes = 7\<rparr>"

text \<open>
  An empty file; a file of the largest size allowed and a list of five of them, which
  reaches the total ceiling, their buffers released by an earlier merge; the counters at
  the start of a batch; the example environment with a random number generator that
  returns 0.5 at every call, and with a digest that always throws.
\<close>

definition empty_pdf :: File where
  "empty_pdf = \<lparr>name_f = ''empty.pdf'', size_f = 0, type_f = ''application/pdf'', arrayBuffer = Inr []\<rparr>"




definition zero :: counts where
  "zero = \<lparr>addedCount = 0, skippedCount = 0, errorCount = 0\<rparr>"


definition muteEnv :: "char env" where
  "muteEnv = demoEnv\<lparr>digest := (\<lambda>b. None)\<rparr>"

section \<open>Properties\<close>

subsection \<open>Basic facts\<close>

lemma foldl_plus: "foldl (\<lambda>s x. s + g x) (n::nat) xs = n + sum_list (map g xs)"
  by (induction xs arbitrary: n) auto

lemma getTotalSize_totalOf: "getTotalSize st = totalOf st (filesArr st)"
  by (simp add: getTotalSize_def records_def totalOf_def foldl_plus comp_def)

lemma fold_releaseItem:
  "fold releaseItem xs h a = (if a \<in> set xs then release (h a) else h a)"
  by (induction xs arbitrary: h) (auto simp: release_def releaseItem_def)

lemma heap_cleanupMemory:
  "heap (cleanupMemory st) a = (if a \<in> set (filesArr st) then release (heap st a) else heap st a)"
  by (simp add: cleanupMemory_def fold_releaseItem)

lemma cleanupMemory_fields [simp]:
  "filesArr (cleanupMemory st) = filesArr st" "nextAddr (cleanupMemory st) = nextAddr st"
  "randomCalls (cleanupMemory st) = randomCalls st"
  by (simp_all add: cleanupMemory_def)

lemma processFile_cases:
  assumes "processFile env f st = (st', out, ts)"
  shows "(out \<noteq> Added \<and> st' = st) \<or>
         (out = Added \<and> ts = [] \<and> (\<exists>b ps. arrayBuffer f = Inr b \<and> pdfLoad env b = Inr ps \<and>
             validateFile f = [] \<and> getTotalSize st + size_f f \<le> MAX_TOTAL_SIZE \<and>
             st' = push (newRecord env st f b (length ps)) st))"
  using assms
  by (auto simp: processFile_def Let_def uid_def push_def newRecord_def
      split: list.splits if_splits sum.splits)

lemma processFile_toasts:
  "processFile env f st = (st', out, ts) \<Longrightarrow> \<forall>t\<in>set ts. onAction t = None \<and> type_t t = error"
  by (auto simp: processFile_def Let_def uid_def showToast_def cannotProcessToast_def
      split: list.splits if_splits sum.splits)

lemma processFiles_toasts:
  "processFiles env fs st c = (st', c', ts) \<Longrightarrow> \<forall>t\<in>set ts. onAction t = None \<and> type_t t = error"
proof (induction fs arbitrary: st c st' c' ts)
  case Nil
  then show ?case by simp
next
  case (Cons f fs)
  obtain st1 out ts1 where pf: "processFile env f st = (st1, out, ts1)"
    by (metis prod_cases3)
  show ?case
  proof (cases "out = Break")
    case True
    with Cons.prems pf processFile_toasts[OF pf] show ?thesis by simp
  next
    case False
    obtain st2 c2 ts2 where r: "processFiles env fs st1 (tally out c) = (st2, c2, ts2)"
      by (metis prod_cases3)
    from False pf r Cons.prems have "ts = ts1 @ ts2" by (cases out) auto
    with processFile_toasts[OF pf] Cons.IH[OF r] show ?thesis by auto
  qed
qed

lemma feedback_toasts: "\<forall>t\<in>set (feedback c). onAction t = None"
  by (simp add: feedback_def showToast_def Let_def)

lemma handleFiles_toasts:
  "handleFiles env fs st = (st', ts) \<Longrightarrow> \<forall>t\<in>set ts. onAction t = None"
  using processFiles_toasts feedback_toasts
  by (fastforce simp: handleFiles_def Let_def showToast_def split: if_splits prod.splits)

lemma cellOK_release: "cellOK env a r \<Longrightarrow> cellOK env a (release r)"
  by (simp add: cellOK_def release_def)

lemma totalOf_extends:
  assumes "extends env st st'" "\<forall>a\<in>set p. a < nextAddr st"
  shows "totalOf st' p = totalOf st p"
proof -
  have "\<forall>a\<in>set p. size_r (heap st' a) = size_r (heap st a)"
    using assms by (auto simp: extends_def release_def)
  then show ?thesis
    unfolding totalOf_def by (induction p) auto
qed

lemma listOK_extends: "extends env st st' \<Longrightarrow> listOK st p \<Longrightarrow> listOK st' p"
  using totalOf_extends[of env st st' p]
  by (auto simp: listOK_def extends_def)

lemma invariant_extends:
  assumes "invariant env st shown" "extends env st st'" "listOK st' (filesArr st')"
    "randomCalls st' = nextAddr st'"
    "\<forall>t\<in>set shown'. \<forall>p. onAction t = Some p \<longrightarrow> (\<exists>t0\<in>set shown. onAction t0 = Some p) \<or> listOK st' p"
  shows "invariant env st' shown'"
proof -
  have cells: "\<forall>a<nextAddr st'. cellOK env a (heap st' a)"
  proof (intro allI impI)
    fix a assume a: "a < nextAddr st'"
    show "cellOK env a (heap st' a)"
    proof (cases "a < nextAddr st")
      case True
      with assms(1) have "cellOK env a (heap st a)" by (simp add: invariant_def)
      moreover from True assms(2) have "heap st' a = heap st a \<or> heap st' a = release (heap st a)"
        by (simp add: extends_def)
      ultimately show ?thesis by (auto simp: cellOK_release)
    next
      case False
      with a assms(2) show ?thesis by (simp add: extends_def)
    qed
  qed
  have screen: "\<forall>t\<in>set shown'. \<forall>p. onAction t = Some p \<longrightarrow> listOK st' p"
  proof (intro ballI allI impI)
    fix t p assume "t \<in> set shown'" "onAction t = Some p"
    with assms(5) have "(\<exists>t0\<in>set shown. onAction t0 = Some p) \<or> listOK st' p" by blast
    then show "listOK st' p"
    proof
      assume "\<exists>t0\<in>set shown. onAction t0 = Some p"
      with assms(1) have "listOK st p" by (auto simp: invariant_def)
      with assms(2) show ?thesis by (rule listOK_extends)
    qed
  qed
  from cells screen assms(3,4) show ?thesis by (simp add: invariant_def)
qed

lemma extends_refl: "extends env st st"
  by (auto simp: extends_def)

lemma extends_push:
  assumes "invariant env st shown" "pdfLoad env b = Inr ps"
  shows "extends env st (push (newRecord env st f b (length ps)) st)"
  using assms
  by (auto simp: extends_def push_def newRecord_def cellOK_def invariant_def less_Suc_eq)

lemma listOK_push:
  assumes "invariant env st shown" "getTotalSize st + size_f f \<le> MAX_TOTAL_SIZE"
  shows "listOK (push (newRecord env st f b n) st)
            (filesArr (push (newRecord env st f b n) st))"
proof -
  let ?st' = "push (newRecord env st f b n) st"
  from assms(1) have ok: "listOK st (filesArr st)" by (simp add: invariant_def)
  then have fresh: "nextAddr st \<notin> set (filesArr st)" by (auto simp: listOK_def)
  have "totalOf ?st' (filesArr st) = totalOf st (filesArr st)"
    using fresh unfolding totalOf_def push_def
    by (auto intro!: arg_cong[where f=sum_list] map_cong)
  then have "totalOf ?st' (filesArr ?st') = getTotalSize st + size_f f"
    by (simp add: getTotalSize_totalOf) (simp add: totalOf_def push_def newRecord_def)
  with ok fresh assms(2) show ?thesis
    by (auto simp: listOK_def push_def)
qed

lemma invariant_processFile:
  assumes "invariant env st shown" "processFile env f st = (st', out, ts)"
  shows "invariant env st' shown"
proof -
  from processFile_cases[OF assms(2)] show ?thesis
  proof
    assume "out \<noteq> Added \<and> st' = st"
    with assms(1) show ?thesis by simp
  next
    assume "out = Added \<and> ts = [] \<and> (\<exists>b ps. arrayBuffer f = Inr b \<and> pdfLoad env b = Inr ps \<and>
             validateFile f = [] \<and> getTotalSize st + size_f f \<le> MAX_TOTAL_SIZE \<and>
             st' = push (newRecord env st f b (length ps)) st)"
    then obtain b ps where l: "pdfLoad env b = Inr ps"
      and sz: "getTotalSize st + size_f f \<le> MAX_TOTAL_SIZE"
      and st': "st' = push (newRecord env st f b (length ps)) st" by blast
    have rc: "randomCalls st' = nextAddr st'"
      using assms(1) st' by (simp add: invariant_def push_def)
    show ?thesis
      using invariant_extends[OF assms(1) extends_push[OF assms(1) l] listOK_push[OF assms(1) sz], of shown] rc
      unfolding st' by blast
  qed
qed

lemma invariant_processFiles:
  "invariant env st shown \<Longrightarrow> processFiles env fs st c = (st', c', ts) \<Longrightarrow> invariant env st' shown"
proof (induction fs arbitrary: st c st' c' ts)
  case Nil
  then show ?case by simp
next
  case (Cons f fs)
  obtain st1 out ts1 where pf: "processFile env f st = (st1, out, ts1)"
    by (metis prod_cases3)
  have i1: "invariant env st1 shown" by (rule invariant_processFile[OF Cons.prems(1) pf])
  show ?case
  proof (cases "out = Break")
    case True
    with Cons.prems pf i1 show ?thesis by simp
  next
    case False
    obtain st2 c2 ts2 where r: "processFiles env fs st1 (tally out c) = (st2, c2, ts2)"
      by (metis prod_cases3)
    from False pf r Cons.prems have "st' = st2" by (cases out) auto
    with Cons.IH[OF i1 r] show ?thesis by simp
  qed
qed

lemma invariant_screen:
  "invariant env st shown \<Longrightarrow> \<forall>t\<in>set shown'. onAction t = None \<or> t \<in> set shown \<Longrightarrow> invariant env st shown'"
  by (fastforce simp: invariant_def)

lemma invariant_handleFiles:
  assumes "invariant env st shown" "handleFiles env fs st = (st', ts)"
  shows "invariant env st' (shown @ ts)"
proof -
  have "invariant env st' shown"
    using assms invariant_processFiles[OF assms(1)]
    by (auto simp: handleFiles_def Let_def split: if_splits prod.splits)
  with handleFiles_toasts[OF assms(2)] show ?thesis
    by (auto intro: invariant_screen)
qed

lemma sum_list_filter_le: "sum_list (map g (filter P xs)) \<le> (sum_list (map g xs) :: nat)"
  by (induction xs) auto

lemma listOK_filter: "listOK st p \<Longrightarrow> listOK st (filter P p)"
  using sum_list_filter_le[of "\<lambda>a. size_r (heap st a)" P p]
  by (auto simp: listOK_def totalOf_def)

lemma extends_cleanupMemory: "extends env st (cleanupMemory st)"
  by (auto simp: extends_def heap_cleanupMemory)

lemma removeClick_state:
  "removeClick a st = (st', ts) \<Longrightarrow>
     nextAddr st' = nextAddr st \<and> randomCalls st' = randomCalls st \<and>
     (\<exists>P. filesArr st' = filter P (filesArr st)) \<and>
     (\<forall>x. heap st' x = heap st x \<or> heap st' x = release (heap st x)) \<and>
     (\<forall>t\<in>set ts. onAction t = None)"
  by (auto simp: removeClick_def Let_def release_def showToast_def split: option.splits if_splits)

lemma invariant_removeClick:
  assumes "invariant env st shown" "removeClick a st = (st', ts)"
  shows "invariant env st' (shown @ ts)"
proof -
  note r = removeClick_state[OF assms(2)]
  from r have e: "extends env st st'" by (auto simp: extends_def)
  from r obtain P where P: "filesArr st' = filter P (filesArr st)" by blast
  from assms(1) have "listOK st (filesArr st)" by (simp add: invariant_def)
  then have "listOK st' (filesArr st')"
    unfolding P by (intro listOK_filter listOK_extends[OF e])
  moreover from r assms(1) have "randomCalls st' = nextAddr st'" by (simp add: invariant_def)
  ultimately have "invariant env st' shown"
    using invariant_extends[OF assms(1) e, of shown] by blast
  with r show ?thesis by (auto intro: invariant_screen)
qed

lemma onEnd_mset:
  assumes "onEnd from to st = Some st'"
  shows "mset (filesArr st') = mset (filesArr st) \<and> heap st' = heap st \<and>
         nextAddr st' = nextAddr st \<and> randomCalls st' = randomCalls st"
proof -
  from assms have lt: "from < length (filesArr st)"
    by (simp add: onEnd_def split: if_splits)
  let ?xs = "filesArr st"
  let ?rest = "take from ?xs @ drop (Suc from) ?xs"
  have "mset (take to ?rest @ [?xs ! from] @ drop to ?rest) = mset ?rest + {#?xs ! from#}"
    by (metis append_take_drop_id mset.simps(1,2) mset_append union_mset_add_mset_right
        add.right_neutral union_mset_add_mset_left append_Cons append_Nil)
  also have "\<dots> = mset (take from ?xs @ ?xs ! from # drop (Suc from) ?xs)"
    by simp
  also have "\<dots> = mset ?xs"
    using lt by (simp only: id_take_nth_drop[symmetric])
  finally show ?thesis
    using assms lt by (auto simp: onEnd_def Let_def)
qed

lemma listOK_mset:
  assumes "mset p' = mset p" "listOK st p"
  shows "listOK st p'"
proof -
  have "sum_list (map (\<lambda>a. size_r (heap st a)) p') = sum_list (map (\<lambda>a. size_r (heap st a)) p)"
    using assms(1) by (metis mset_map sum_mset_sum_list)
  moreover have "distinct p' = distinct p" using assms(1) by (rule mset_eq_imp_distinct_iff)
  moreover have "set p' = set p" using assms(1) by (rule mset_eq_setD)
  ultimately show ?thesis using assms(2) by (simp add: listOK_def totalOf_def)
qed

lemma invariant_onEnd:
  assumes "invariant env st shown" "onEnd from to st = Some st'"
  shows "invariant env st' shown"
proof -
  note r = onEnd_mset[OF assms(2)]
  from r have e: "extends env st st'" by (auto simp: extends_def)
  from assms(1) have "listOK st (filesArr st)" by (simp add: invariant_def)
  with r have "listOK st (filesArr st')" by (auto intro: listOK_mset)
  then have "listOK st' (filesArr st')" by (rule listOK_extends[OF e])
  moreover from r assms(1) have "randomCalls st' = nextAddr st'" by (simp add: invariant_def)
  ultimately show ?thesis
    using invariant_extends[OF assms(1) e, of shown] by blast
qed

lemma invariant_cleanupMemory:
  assumes "invariant env st shown"
  shows "invariant env (cleanupMemory st) shown"
proof -
  from assms have "listOK st (filesArr st)" by (simp add: invariant_def)
  then have "listOK (cleanupMemory st) (filesArr (cleanupMemory st))"
    using listOK_extends[OF extends_cleanupMemory] by simp
  moreover from assms have "randomCalls (cleanupMemory st) = nextAddr (cleanupMemory st)"
    by (simp add: invariant_def)
  ultimately show ?thesis
    using invariant_extends[OF assms extends_cleanupMemory, of shown] by blast
qed

lemma mergeItems_toasts:
  "mergeItems env h tot as out n = (out', n', ws, ts) \<Longrightarrow> \<forall>t\<in>set ts. onAction t = None \<and> type_t t = error"
  by (induction as arbitrary: out n out' n' ws ts)
     (auto simp: Let_def showToast_def split: sum.splits prod.splits)

lemma mergeClick_state:
  assumes "mergeClick env proceed now st = (st', out)"
  shows "(st' = st \<or> st' = cleanupMemory st) \<and> (\<forall>t\<in>set (toasts out). onAction t = None)"
  using assms mergeItems_toasts[of env "heap st" _ "filesArr st" "[]" 0]
  by (auto simp: mergeClick_def Let_def showToast_def mergeFailed_def
      split: if_splits prod.splits sum.splits)

lemma invariant_mergeClick:
  assumes "invariant env st shown" "mergeClick env proceed now st = (st', out)"
  shows "invariant env st' (shown @ toasts out)"
proof -
  from mergeClick_state[OF assms(2)] assms(1) have "invariant env st' shown"
    by (auto simp: invariant_cleanupMemory)
  with mergeClick_state[OF assms(2)] show ?thesis by (auto intro: invariant_screen)
qed

lemma invariant_clearClick:
  assumes "invariant env st shown" "clearClick st = (st', ts)"
  shows "invariant env st' (shown @ ts)"
proof (cases "filesArr st = []")
  case True
  with assms show ?thesis by (simp add: clearClick_def)
next
  case False
  with assms(2) have st': "st' = (cleanupMemory st)\<lparr>filesArr := []\<rparr>"
    and ts: "\<forall>t\<in>set ts. onAction t = Some (filesArr st)"
    by (auto simp: clearClick_def Let_def)
  have e: "extends env st st'"
    using extends_cleanupMemory[of env st] by (simp add: st' extends_def)
  from assms(1) have "listOK st (filesArr st)" by (simp add: invariant_def)
  then have l: "listOK st' (filesArr st)" by (rule listOK_extends[OF e])
  have "listOK st' (filesArr st')" by (simp add: st' listOK_def totalOf_def)
  moreover from assms(1) have "randomCalls st' = nextAddr st'" by (simp add: st' invariant_def)
  moreover have "\<forall>t\<in>set (shown @ ts). \<forall>p. onAction t = Some p \<longrightarrow>
      (\<exists>t0\<in>set shown. onAction t0 = Some p) \<or> listOK st' p"
    using ts l by auto
  ultimately show ?thesis
    by (rule invariant_extends[OF assms(1) e])
qed

lemma invariant_actionClick:
  assumes "invariant env st shown" "t \<in> set shown" "actionClick t st = (st', ts)"
  shows "invariant env st' (remove1 t shown @ ts)"
proof -
  have sub: "set (remove1 t shown) \<subseteq> set shown" by (rule set_remove1_subset)
  show ?thesis
  proof (cases "\<exists>l p. actionLabel t = Some l \<and> onAction t = Some p")
    case False
    then have "st' = st" "ts = []" using assms(3)
      by (auto simp: actionClick_def split: option.splits)
    with assms(1) sub show ?thesis by (auto intro: invariant_screen)
  next
    case True
    then obtain l p where lp: "actionLabel t = Some l" "onAction t = Some p" by blast
    with assms(3) have st': "st' = st\<lparr>filesArr := p\<rparr>"
      and ts: "\<forall>t\<in>set ts. onAction t = None"
      by (auto simp: actionClick_def showToast_def)
    have e: "extends env st st'" by (auto simp: st' extends_def)
    from assms(1,2) lp have "listOK st p" by (auto simp: invariant_def)
    then have "listOK st' (filesArr st')" using listOK_extends[OF e] by (simp add: st')
    moreover from assms(1) have "randomCalls st' = nextAddr st'" by (simp add: st' invariant_def)
    ultimately have "invariant env st' shown"
      using invariant_extends[OF assms(1) e, of shown] by blast
    with ts sub show ?thesis by (auto intro: invariant_screen)
  qed
qed

lemma invariant_init: "invariant env init []"
  by (simp add: invariant_def init_def listOK_def totalOf_def)

lemma reachable_invariant: "reachable env st shown \<Longrightarrow> invariant env st shown"
proof (induction rule: reachable.induct)
  case start
  show ?case by (rule invariant_init)
next
  case (files st shown fs st' ts)
  then show ?case by (auto intro: invariant_handleFiles)
next
  case (remove st shown a st' ts)
  then show ?case by (auto intro: invariant_removeClick)
next
  case (drag st shown "from" to st')
  then show ?case by (auto intro: invariant_onEnd)
next
  case (merge st shown proceed now st' out)
  then show ?case by (auto intro: invariant_mergeClick)
next
  case (clear st shown st' ts)
  then show ?case by (auto intro: invariant_clearClick)
next
  case (action st shown t st' ts)
  then show ?case by (auto intro: invariant_actionClick)
next
  case (expire st shown t)
  have "set (remove1 t shown) \<subseteq> set shown" by (rule set_remove1_subset)
  with expire.IH show ?case by (auto intro: invariant_screen)
qed

subsection \<open>The filter of intake\<close>

text \<open>
  C5. Intake keeps exactly the files whose name, in lower case, ends in \<open>.pdf\<close> or whose
  declared type is \<open>application/pdf\<close>: an empty declared type alone does not keep a file,
  because the second disjunct of the source asks for the type \<open>application/pdf\<close> again.
  When no file of a batch is left after the filter, the handler leaves the state as it
  was, so no record is added, and for a batch that has a file it shows the one error
  notification "Unsupported files". (Called with no file at all, the handler returns at
  once, without a notification.)
\<close>

theorem pdf_filter:
  "(isPdf f = (endsWith (toLowerCase (name_f f)) ''.pdf'' \<or> type_f f = ''application/pdf'')) \<and>
   (filter isPdf files = [] \<longrightarrow>
      fst (handleFiles env files st) = st \<and>
      (files \<noteq> [] \<longrightarrow>
         snd (handleFiles env files st)
           = [showToast ''Unsupported files'' ''Please add PDF files only.'' error 2500]))"
  by (auto simp: isPdf_def Let_def handleFiles_def)

theorem pdf_filter_witness:
  "\<not> isPdf notes_txt \<and> [notes_txt] \<noteq> [] \<and> filter isPdf [notes_txt] = [] \<and>
   handleFiles demoEnv [notes_txt] init =
     (init, [showToast ''Unsupported files'' ''Please add PDF files only.'' error 2500])"
  using pdf_filter[of notes_txt "[notes_txt]" demoEnv init]
  by (simp add: notes_txt_def endsWith_def toLowerCase_def lowerChar_def prod_eq_iff)

subsection \<open>The example state\<close>



lemma records_abc:
  "records abc = [recordOf a_pdf ''%PDF-A'' 1 0, recordOf b_pdf ''%PDF-B'' 1 1,
                  recordOf c_pdf ''%PDF-C'' 1 2]"
  by (simp add: abc_def records_def)


lemma records_released:
  "records (cleanupMemory abc) = map release (records abc)"
  by (simp add: records_def heap_cleanupMemory)

subsection \<open>Clear and undo\<close>

lemma records_cleanupMemory: "records (cleanupMemory st) = map release (records st)"
  by (simp add: records_def heap_cleanupMemory)

text \<open>
  C9. When the list is not empty, a click on the clear button empties it and shows one
  notification with an Undo action; a click on that action makes the list what it was
  before the clear: the same records in the same order, with the same id, name, size,
  page count, hash and file. What is not restored is the byte buffer: every restored
  record has \<open>rawBytes\<close> released, because the clear released it and nothing reads the
  file again.
\<close>

theorem clear_then_undo:
  assumes "filesArr st \<noteq> []"
  shows "\<exists>st1 t st2 ts. clearClick st = (st1, [t]) \<and> records st1 = [] \<and>
           actionLabel t = Some ''Undo'' \<and> actionClick t st1 = (st2, ts) \<and>
           records st2 = map (\<lambda>r. r\<lparr>rawBytes := None\<rparr>) (records st) \<and>
           map id_r (records st2) = map id_r (records st) \<and>
           map name (records st2) = map name (records st) \<and>
           map size_r (records st2) = map size_r (records st) \<and>
           map pageCount (records st2) = map pageCount (records st) \<and>
           map hash (records st2) = map hash (records st) \<and>
           map file_r (records st2) = map file_r (records st)"
proof -
  let ?t = "\<lparr>title = ''Cleared'', message = ''All files removed.'', type_t = success,
             timeoutMs = 2500, actionLabel = Some ''Undo'', onAction = Some (filesArr st)\<rparr>"
  let ?st1 = "(cleanupMemory st)\<lparr>filesArr := []\<rparr>"
  let ?st2 = "?st1\<lparr>filesArr := filesArr st\<rparr>"
  have c: "clearClick st = (?st1, [?t])"
    using assms by (simp add: clearClick_def Let_def)
  have a: "actionClick ?t ?st1 = (?st2, [showToast ''Restored'' ''Files restored.'' success 2500])"
    by (simp add: actionClick_def)
  have r: "records ?st2 = map release (records st)"
    using records_cleanupMemory[of st] by (simp add: records_def)
  have "records ?st1 = []" by (simp add: records_def)
  with c a r show ?thesis
    by (simp add: release_def comp_def)
qed

theorem clear_then_undo_witness:
  "filesArr abc \<noteq> [] \<and>
   (\<exists>st1 t st2 ts. clearClick abc = (st1, [t]) \<and> records st1 = [] \<and>
      actionClick t st1 = (st2, ts) \<and>
      map name (records st2) = [''a.pdf'', ''b.pdf'', ''c.pdf''] \<and>
      map id_r (records st2) = [''0'', ''1'', ''2''] \<and>
      map rawBytes (records st2) = [None, None, None])"
proof -
  have ne: "filesArr abc \<noteq> []" by (simp add: abc_def)
  from clear_then_undo[OF ne] obtain st1 t st2 ts where
    h: "clearClick abc = (st1, [t])" "records st1 = []" "actionClick t st1 = (st2, ts)"
       "records st2 = map (\<lambda>r. r\<lparr>rawBytes := None\<rparr>) (records abc)"
    by blast
  have "records abc = [recordOf a_pdf ''%PDF-A'' 1 0, recordOf b_pdf ''%PDF-B'' 1 1,
                       recordOf c_pdf ''%PDF-C'' 1 2]"
    by (simp add: abc_def records_def)
  with h ne show ?thesis
    by (auto simp: recordOf_def a_pdf_def b_pdf_def c_pdf_def showNat.simps digitChar_def)
qed

subsection \<open>Merge: the order of the output\<close>

lemma copyPages_all: "copyPages src (getPageIndices src) = src"
  by (simp add: copyPages_def getPageIndices_def map_nth)


lemma cellOK_pages:
  "cellOK env a r \<Longrightarrow> loadRaw env (rawBytes r) = Inr src \<Longrightarrow> pageCount r = length src"
  by (auto simp: cellOK_def loadRaw_def split: option.splits)

lemma mergeItems_added:
  "\<forall>a\<in>set as. cellOK env a (h a) \<Longrightarrow>
     fst (snd (mergeItems env h tot as out n))
       = n + sum_list (map (\<lambda>a. length (pagesOf env (h a))) as)"
proof (induction as arbitrary: out n)
  case Nil
  show ?case by simp
next
  case (Cons a as)
  show ?case
  proof (cases "loadRaw env (rawBytes (h a))")
    case (Inl e)
    with Cons show ?thesis by (simp add: split_beta pagesOf_def)
  next
    case (Inr src)
    with Cons.prems have "pageCount (h a) = length src" by (auto dest: cellOK_pages)
    with Inr Cons show ?thesis by (simp add: split_beta Let_def copyPages_all pagesOf_def)
  qed
qed





lemma length_move: "from < length xs \<Longrightarrow> length (move from to xs) = length xs"
  by (simp add: move_def Let_def min_def)



subsection \<open>Merge: nothing copied\<close>

lemma mergeItems_all_fail:
  "\<forall>a\<in>set as. \<exists>e. loadRaw env (rawBytes (h a)) = Inl e \<Longrightarrow>
     mergeItems env h tot as out n =
       (out, n, [], map (\<lambda>a. showToast ''Partial failure''
                              (''Skipped '' @ name (h a) @ '' due to error'') error 3500) as)"
  by (induction as) auto

text \<open>
  C2. When the list is not empty and the copy fails for every record, a click on the merge
  button produces no download and leaves the state as it was (no buffer is released),
  and every notification it shows is an error, none a success; when the merge is not
  declined at the confirmation dialog, so that the copies are attempted, the
  notifications are one "Partial failure" for each record, in order, and last the
  explicit "Merge failed" with the message "No pages were successfully merged". The same
  failure, with no download, is the result in every state the page can reach whenever no
  page at all is copied (the records that load have no page). And no empty output is ever
  produced: in a state the page can reach, a merge that ends in a download has copied at
  least one page.
\<close>

theorem merge_nothing_copied:
  "(filesArr st \<noteq> [] \<and> (\<forall>r\<in>set (records st). \<exists>e. loadRaw env (rawBytes r) = Inl e) \<longrightarrow>
      fst (mergeClick env proceed now st) = st \<and>
      download (snd (mergeClick env proceed now st)) = None \<and>
      (\<forall>t\<in>set (toasts (snd (mergeClick env proceed now st))). type_t t = error) \<and>
      (totalPages st \<le> LARGE_OUTPUT_THRESHOLD \<or> proceed \<longrightarrow>
         toasts (snd (mergeClick env proceed now st)) =
           map (\<lambda>r. showToast ''Partial failure''
                      (''Skipped '' @ name r @ '' due to error'') error 3500) (records st)
           @ [showToast ''Merge failed'' ''No pages were successfully merged'' error 5000])) \<and>
   (reachable env st shown \<and> filesArr st \<noteq> [] \<and>
    concat (map (pagesOf env) (records st)) = [] \<longrightarrow>
      fst (mergeClick env proceed now st) = st \<and>
      download (snd (mergeClick env proceed now st)) = None \<and>
      (\<forall>t\<in>set (toasts (snd (mergeClick env proceed now st))). type_t t = error) \<and>
      (totalPages st \<le> LARGE_OUTPUT_THRESHOLD \<or> proceed \<longrightarrow>
         toasts (snd (mergeClick env proceed now st)) \<noteq> [] \<and>
         last (toasts (snd (mergeClick env proceed now st)))
           = showToast ''Merge failed'' ''No pages were successfully merged'' error 5000)) \<and>
   (reachable env st shown \<and> download (snd (mergeClick env proceed now st)) \<noteq> None \<longrightarrow>
      concat (map (pagesOf env) (records st)) \<noteq> [])"
proof (intro conjI impI)
  assume h: "filesArr st \<noteq> [] \<and> (\<forall>r\<in>set (records st). \<exists>e. loadRaw env (rawBytes r) = Inl e)"
  then have "\<forall>a\<in>set (filesArr st). \<exists>e. loadRaw env (rawBytes (heap st a)) = Inl e"
    by (simp add: records_def)
  from mergeItems_all_fail[OF this, of "totalPages st" "[]" 0] h
  have r: "fst (mergeClick env proceed now st) = st \<and>
      download (snd (mergeClick env proceed now st)) = None \<and>
      (\<forall>t\<in>set (toasts (snd (mergeClick env proceed now st))). type_t t = error) \<and>
      (totalPages st \<le> LARGE_OUTPUT_THRESHOLD \<or> proceed \<longrightarrow>
         toasts (snd (mergeClick env proceed now st)) =
           map (\<lambda>r. showToast ''Partial failure''
                      (''Skipped '' @ name r @ '' due to error'') error 3500) (records st)
           @ [showToast ''Merge failed'' ''No pages were successfully merged'' error 5000])"
    by (auto simp: mergeClick_def Let_def mergeFailed_def showToast_def records_def comp_def)
  from r show "fst (mergeClick env proceed now st) = st" by simp
  from r show "download (snd (mergeClick env proceed now st)) = None" by simp
  from r show "\<forall>t\<in>set (toasts (snd (mergeClick env proceed now st))). type_t t = error" by simp
  assume "totalPages st \<le> LARGE_OUTPUT_THRESHOLD \<or> proceed"
  with r show "toasts (snd (mergeClick env proceed now st)) =
           map (\<lambda>r. showToast ''Partial failure''
                      (''Skipped '' @ name r @ '' due to error'') error 3500) (records st)
           @ [showToast ''Merge failed'' ''No pages were successfully merged'' error 5000]"
    by simp
next
  assume h: "reachable env st shown \<and> filesArr st \<noteq> [] \<and>
    concat (map (pagesOf env) (records st)) = []"
  then have inv: "invariant env st shown" by (simp add: reachable_invariant)
  then have cells: "\<forall>a\<in>set (filesArr st). cellOK env a (heap st a)"
    by (auto simp: invariant_def listOK_def)
  obtain outPdf added ws ts where
    m: "mergeItems env (heap st) (totalPages st) (filesArr st) [] 0 = (outPdf, added, ws, ts)"
    by (metis prod_cases4)
  from h have "sum_list (map (\<lambda>a. length (pagesOf env (heap st a))) (filesArr st)) = 0"
    by (simp add: records_def)
  with mergeItems_added[OF cells, of "totalPages st" "[]" 0] m have a0: "added = 0" by simp
  from mergeItems_toasts[OF m] have er: "\<forall>t\<in>set ts. type_t t = error" by simp
  from m a0 er h
  have r: "fst (mergeClick env proceed now st) = st \<and>
      download (snd (mergeClick env proceed now st)) = None \<and>
      (\<forall>t\<in>set (toasts (snd (mergeClick env proceed now st))). type_t t = error) \<and>
      (totalPages st \<le> LARGE_OUTPUT_THRESHOLD \<or> proceed \<longrightarrow>
         toasts (snd (mergeClick env proceed now st)) \<noteq> [] \<and>
         last (toasts (snd (mergeClick env proceed now st)))
           = showToast ''Merge failed'' ''No pages were successfully merged'' error 5000)"
    by (auto simp: mergeClick_def Let_def mergeFailed_def showToast_def)
  from r show "fst (mergeClick env proceed now st) = st" by simp
  from r show "download (snd (mergeClick env proceed now st)) = None" by simp
  from r show "\<forall>t\<in>set (toasts (snd (mergeClick env proceed now st))). type_t t = error" by simp
  assume "totalPages st \<le> LARGE_OUTPUT_THRESHOLD \<or> proceed"
  with r show "toasts (snd (mergeClick env proceed now st)) \<noteq> []"
    and "last (toasts (snd (mergeClick env proceed now st)))
           = showToast ''Merge failed'' ''No pages were successfully merged'' error 5000"
    by simp_all
next
  assume h: "reachable env st shown \<and> download (snd (mergeClick env proceed now st)) \<noteq> None"
  then have inv: "invariant env st shown" by (simp add: reachable_invariant)
  then have cells: "\<forall>a\<in>set (filesArr st). cellOK env a (heap st a)"
    by (auto simp: invariant_def listOK_def)
  obtain outPdf added ws ts where
    m: "mergeItems env (heap st) (totalPages st) (filesArr st) [] 0 = (outPdf, added, ws, ts)"
    by (metis prod_cases4)
  from h m have "added \<noteq> 0"
    by (auto simp: mergeClick_def Let_def split: if_splits sum.splits)
  with mergeItems_added[OF cells, of "totalPages st" "[]" 0] m
  have "sum_list (map (\<lambda>a. length (pagesOf env (heap st a))) (filesArr st)) \<noteq> 0" by simp
  then show "concat (map (pagesOf env) (records st)) \<noteq> []"
    by (auto simp: records_def sum_list_eq_0_iff)
qed

theorem merge_nothing_copied_witness:
  "filesArr (cleanupMemory abc) \<noteq> [] \<and>
   map (\<lambda>r. loadRaw demoEnv (rawBytes r)) (records (cleanupMemory abc))
     = replicate 3 (Inl ''pdf must be of type string or Uint8Array or ArrayBuffer, but was actually of type null'') \<and>
   fst (mergeClick demoEnv False jan5 (cleanupMemory abc)) = cleanupMemory abc \<and>
   download (snd (mergeClick demoEnv False jan5 (cleanupMemory abc))) = None \<and>
   toasts (snd (mergeClick demoEnv False jan5 (cleanupMemory abc))) =
     [showToast ''Partial failure'' ''Skipped a.pdf due to error'' error 3500,
      showToast ''Partial failure'' ''Skipped b.pdf due to error'' error 3500,
      showToast ''Partial failure'' ''Skipped c.pdf due to error'' error 3500,
      showToast ''Merge failed'' ''No pages were successfully merged'' error 5000]"
proof -
  have ne: "filesArr (cleanupMemory abc) \<noteq> []" by (simp add: abc_def)
  have ld: "map (\<lambda>r. loadRaw demoEnv (rawBytes r)) (records (cleanupMemory abc))
     = replicate 3 (Inl ''pdf must be of type string or Uint8Array or ArrayBuffer, but was actually of type null'')"
    by (simp add: records_released records_abc release_def loadRaw_def numeral_3_eq_3)
  then have fl: "\<forall>r\<in>set (records (cleanupMemory abc)). \<exists>e. loadRaw demoEnv (rawBytes r) = Inl e"
    by (simp add: records_released records_abc release_def loadRaw_def)
  have tp: "totalPages (cleanupMemory abc) = 3"
    by (simp add: totalPages_def records_released records_abc release_def recordOf_def)
  have "fst (mergeClick demoEnv False jan5 (cleanupMemory abc)) = cleanupMemory abc \<and>
      download (snd (mergeClick demoEnv False jan5 (cleanupMemory abc))) = None \<and>
      (\<forall>t\<in>set (toasts (snd (mergeClick demoEnv False jan5 (cleanupMemory abc)))). type_t t = error) \<and>
      (totalPages (cleanupMemory abc) \<le> LARGE_OUTPUT_THRESHOLD \<or> False \<longrightarrow>
         toasts (snd (mergeClick demoEnv False jan5 (cleanupMemory abc))) =
           map (\<lambda>r. showToast ''Partial failure''
                      (''Skipped '' @ name r @ '' due to error'') error 3500)
               (records (cleanupMemory abc))
           @ [showToast ''Merge failed'' ''No pages were successfully merged'' error 5000])"
    using ne fl
    by (intro mp[OF conjunct1[OF merge_nothing_copied[where env = demoEnv
          and st = "cleanupMemory abc" and proceed = False and now = jan5]]]) simp
  with tp ne ld show ?thesis
    by (simp add: LARGE_OUTPUT_THRESHOLD_def records_released records_abc release_def
        recordOf_def a_pdf_def b_pdf_def c_pdf_def)
qed

subsection \<open>Merge: the progress bar\<close>








subsection \<open>Intake: one file\<close>



lemma processFile_Added:
  assumes "processFile env f st = (st', Added, ts)"
  shows "\<exists>bytes pdfDoc. validateFile f = [] \<and> getTotalSize st + size_f f \<le> MAX_TOTAL_SIZE \<and>
           arrayBuffer f = Inr bytes \<and>
           find (\<lambda>a. isDuplicate (hashFile env bytes) f (heap st a)) (filesArr st) = None \<and>
           startsWith (take 5 bytes) ''%PDF-'' \<and> pdfLoad env bytes = Inr pdfDoc \<and> ts = [] \<and>
           st' = push (newRecord env st f bytes (length pdfDoc)) st"
  using assms
  by (auto simp: processFile_def Let_def uid_def push_def newRecord_def
      split: list.splits if_splits sum.splits)

lemma processFile_not_Added:
  assumes "processFile env f st = (st', out, ts)" "out \<noteq> Added"
  shows "st' = st \<and> (out = Skipped \<longrightarrow> ts = []) \<and> (out \<noteq> Skipped \<longrightarrow> (\<exists>t. ts = [t] \<and> type_t t = error))"
  using assms
  by (auto simp: processFile_def Let_def uid_def showToast_def cannotProcessToast_def
      split: list.splits if_splits sum.splits)









subsection \<open>Intake: the total size\<close>




subsection \<open>Intake: duplicates\<close>




subsection \<open>Intake: a hash that could not be computed\<close>

text \<open>
  C10. When the digest throws, \<open>hashFile\<close> returns \<open>null\<close>, and a candidate without a hash
  is a duplicate of a record exactly when its name and size are the record's: the hash
  comparison is skipped, also against a record that has no hash either. So, in a state the
  page can reach, two files that both fail hashing and are otherwise acceptable (valid
  size, within the total ceiling, PDF signature, loadable, no record with their name and
  size) are both added, each without a hash, unless their name and size coincide; then
  the first is added and the second is skipped as its duplicate.
\<close>

theorem absent_hash_falls_back:
  "(digest env bytes = None \<longrightarrow> hashFile env bytes = None) \<and>
   (isDuplicate None f x = (name x = name_f f \<and> size_r x = size_f f)) \<and>
   (reachable env st shown \<and>
    arrayBuffer f1 = Inr b1 \<and> arrayBuffer f2 = Inr b2 \<and>
    digest env b1 = None \<and> digest env b2 = None \<and>
    validateFile f1 = [] \<and> validateFile f2 = [] \<and>
    getTotalSize st + size_f f1 + size_f f2 \<le> MAX_TOTAL_SIZE \<and>
    startsWith (take 5 b1) ''%PDF-'' \<and> startsWith (take 5 b2) ''%PDF-'' \<and>
    pdfLoad env b1 = Inr d1 \<and> pdfLoad env b2 = Inr d2 \<and>
    (\<forall>a\<in>set (filesArr st). \<not> (name (heap st a) = name_f f1 \<and> size_r (heap st a) = size_f f1) \<and>
                             \<not> (name (heap st a) = name_f f2 \<and> size_r (heap st a) = size_f f2)) \<longrightarrow>
    (\<exists>st' c' ts. processFiles env [f1, f2] st c = (st', c', ts) \<and>
       (if name_f f1 = name_f f2 \<and> size_f f1 = size_f f2
        then map file_r (records st') = map file_r (records st) @ [f1] \<and>
             addedCount c' = addedCount c + 1 \<and> skippedCount c' = skippedCount c + 1
        else map file_r (records st') = map file_r (records st) @ [f1, f2] \<and>
             addedCount c' = addedCount c + 2 \<and> skippedCount c' = skippedCount c) \<and>
       errorCount c' = errorCount c \<and> ts = [] \<and>
       (\<forall>r\<in>set (drop (length (records st)) (records st')). hash r = None)))"
proof (intro conjI impI)
  show "digest env bytes = None \<Longrightarrow> hashFile env bytes = None"
    by (simp add: hashFile_def)
  show "isDuplicate None f x = (name x = name_f f \<and> size_r x = size_f f)"
    by (simp add: isDuplicate_def)
next
  assume h: "reachable env st shown \<and>
    arrayBuffer f1 = Inr b1 \<and> arrayBuffer f2 = Inr b2 \<and>
    digest env b1 = None \<and> digest env b2 = None \<and>
    validateFile f1 = [] \<and> validateFile f2 = [] \<and>
    getTotalSize st + size_f f1 + size_f f2 \<le> MAX_TOTAL_SIZE \<and>
    startsWith (take 5 b1) ''%PDF-'' \<and> startsWith (take 5 b2) ''%PDF-'' \<and>
    pdfLoad env b1 = Inr d1 \<and> pdfLoad env b2 = Inr d2 \<and>
    (\<forall>a\<in>set (filesArr st). \<not> (name (heap st a) = name_f f1 \<and> size_r (heap st a) = size_f f1) \<and>
                             \<not> (name (heap st a) = name_f f2 \<and> size_r (heap st a) = size_f f2))"
  then have inv: "invariant env st shown" by (simp add: reachable_invariant)
  then have lt: "\<forall>a\<in>set (filesArr st). a < nextAddr st" by (simp add: invariant_def listOK_def)
  then have fresh: "nextAddr st \<notin> set (filesArr st)" by auto
  from h have hf: "hashFile env b1 = None" "hashFile env b2 = None" by (simp_all add: hashFile_def)
  let ?r1 = "newRecord env st f1 b1 (length d1)"
  let ?st1 = "push ?r1 st"
  have nd1: "find (\<lambda>a. isDuplicate None f1 (heap st a)) (filesArr st) = None"
    using h by (auto simp: find_None_iff isDuplicate_def)
  have p1: "processFile env f1 st = (?st1, Added, [])"
    using h hf nd1 by (simp add: processFile_def Let_def uid_def push_def newRecord_def)
  have heap1: "\<forall>a\<in>set (filesArr st). heap ?st1 a = heap st a"
    using fresh by (auto simp: push_def)
  have rec1: "records ?st1 = records st @ [?r1]"
    using fresh by (auto simp: records_def push_def)
  have tot1: "getTotalSize ?st1 = getTotalSize st + size_f f1"
    unfolding getTotalSize_def rec1 by (simp add: foldl_plus newRecord_def)
  show "\<exists>st' c' ts. processFiles env [f1, f2] st c = (st', c', ts) \<and>
       (if name_f f1 = name_f f2 \<and> size_f f1 = size_f f2
        then map file_r (records st') = map file_r (records st) @ [f1] \<and>
             addedCount c' = addedCount c + 1 \<and> skippedCount c' = skippedCount c + 1
        else map file_r (records st') = map file_r (records st) @ [f1, f2] \<and>
             addedCount c' = addedCount c + 2 \<and> skippedCount c' = skippedCount c) \<and>
       errorCount c' = errorCount c \<and> ts = [] \<and>
       (\<forall>r\<in>set (drop (length (records st)) (records st')). hash r = None)"
  proof (cases "name_f f1 = name_f f2 \<and> size_f f1 = size_f f2")
    case True
    have "find (\<lambda>a. isDuplicate None f2 (heap ?st1 a)) (filesArr ?st1) \<noteq> None"
      using True by (auto simp: find_None_iff isDuplicate_def push_def newRecord_def)
    then have p2: "processFile env f2 ?st1 = (?st1, Skipped, [])"
      using h hf tot1 by (simp add: processFile_def Let_def)
    from p1 p2 True rec1 hf show ?thesis
      by (simp add: tally_def newRecord_def)
  next
    case False
    let ?r2 = "newRecord env ?st1 f2 b2 (length d2)"
    let ?st2 = "push ?r2 ?st1"
    have "find (\<lambda>a. isDuplicate None f2 (heap ?st1 a)) (filesArr ?st1) = None"
      using False h heap1 by (auto simp: find_None_iff isDuplicate_def push_def newRecord_def)
    then have p2: "processFile env f2 ?st1 = (?st2, Added, [])"
      using h hf tot1 by (simp add: processFile_def Let_def uid_def push_def newRecord_def)
    have rec2: "records ?st2 = records st @ [?r1, ?r2]"
      using lt by (auto simp: records_def push_def)
    from p1 p2 False rec2 hf show ?thesis
      by (simp add: tally_def newRecord_def)
  qed
qed

theorem absent_hash_witness:
  "reachable muteEnv init [] \<and> digest muteEnv ''%PDF-A'' = None \<and> digest muteEnv ''%PDF-B'' = None \<and>
   (\<exists>st' c' ts. processFiles muteEnv [a_pdf, b_pdf] init zero = (st', c', ts) \<and>
      map file_r (records st') = [a_pdf, b_pdf] \<and> map hash (records st') = [None, None] \<and>
      addedCount c' = 2 \<and> skippedCount c' = 0 \<and> errorCount c' = 0 \<and> ts = [])"
proof -
  have prem: "reachable muteEnv init [] \<and>
    arrayBuffer a_pdf = Inr ''%PDF-A'' \<and> arrayBuffer b_pdf = Inr ''%PDF-B'' \<and>
    digest muteEnv ''%PDF-A'' = None \<and> digest muteEnv ''%PDF-B'' = None \<and>
    validateFile a_pdf = [] \<and> validateFile b_pdf = [] \<and>
    getTotalSize init + size_f a_pdf + size_f b_pdf \<le> MAX_TOTAL_SIZE \<and>
    startsWith (take 5 ''%PDF-A'') ''%PDF-'' \<and> startsWith (take 5 ''%PDF-B'') ''%PDF-'' \<and>
    pdfLoad muteEnv ''%PDF-A'' = Inr ''A'' \<and> pdfLoad muteEnv ''%PDF-B'' = Inr ''B'' \<and>
    (\<forall>a\<in>set (filesArr init).
        \<not> (name (heap init a) = name_f a_pdf \<and> size_r (heap init a) = size_f a_pdf) \<and>
        \<not> (name (heap init a) = name_f b_pdf \<and> size_r (heap init a) = size_f b_pdf))"
    using reachable.start[of muteEnv]
    by (simp add: a_pdf_def b_pdf_def muteEnv_def demoEnv_def validateFile_def
        MAX_FILE_SIZE_def MAX_TOTAL_SIZE_def getTotalSize_def records_def init_def startsWith_def)
  have ne: "\<not> (name_f a_pdf = name_f b_pdf \<and> size_f a_pdf = size_f b_pdf)"
    by (simp add: a_pdf_def b_pdf_def)
  have ri: "records init = []" by (simp add: records_def init_def)
  have "\<exists>st' c' ts. processFiles muteEnv [a_pdf, b_pdf] init zero = (st', c', ts) \<and>
       (if name_f a_pdf = name_f b_pdf \<and> size_f a_pdf = size_f b_pdf
        then map file_r (records st') = map file_r (records init) @ [a_pdf] \<and>
             addedCount c' = addedCount zero + 1 \<and> skippedCount c' = skippedCount zero + 1
        else map file_r (records st') = map file_r (records init) @ [a_pdf, b_pdf] \<and>
             addedCount c' = addedCount zero + 2 \<and> skippedCount c' = skippedCount zero) \<and>
       errorCount c' = errorCount zero \<and> ts = [] \<and>
       (\<forall>r\<in>set (drop (length (records init)) (records st')). hash r = None)"
    by (rule mp[OF conjunct2[OF conjunct2[OF absent_hash_falls_back[where env = muteEnv
          and st = init and shown = "[]" and ?f1.0 = a_pdf and ?f2.0 = b_pdf
          and ?b1.0 = "''%PDF-A''" and ?b2.0 = "''%PDF-B''" and ?d1.0 = "''A''"
          and ?d2.0 = "''B''" and c = zero]]] prem])
  then obtain st' c' ts where
    raw: "processFiles muteEnv [a_pdf, b_pdf] init zero = (st', c', ts)"
      "(if name_f a_pdf = name_f b_pdf \<and> size_f a_pdf = size_f b_pdf
        then map file_r (records st') = map file_r (records init) @ [a_pdf] \<and>
             addedCount c' = addedCount zero + 1 \<and> skippedCount c' = skippedCount zero + 1
        else map file_r (records st') = map file_r (records init) @ [a_pdf, b_pdf] \<and>
             addedCount c' = addedCount zero + 2 \<and> skippedCount c' = skippedCount zero)"
      "errorCount c' = errorCount zero" "ts = []"
      "\<forall>r\<in>set (drop (length (records init)) (records st')). hash r = None"
    by blast
  from raw(2) ne ri have h2: "map file_r (records st') = [a_pdf, b_pdf]"
    and h3: "addedCount c' = 2" and h4: "skippedCount c' = 0"
    by (simp_all add: zero_def)
  from raw(3) have h5: "errorCount c' = 0" by (simp add: zero_def)
  from raw(5) ri have h7: "\<forall>r\<in>set (records st'). hash r = None" by simp
  from h2 obtain r1 r2 where "records st' = [r1, r2]" by auto
  with h7 have hm: "map hash (records st') = [None, None]" by simp
  from prem have b: "reachable muteEnv init []" "digest muteEnv ''%PDF-A'' = None"
    "digest muteEnv ''%PDF-B'' = None"
    by blast+
  from raw(1,4) h2 hm h3 h4 h5
  have "\<exists>st' c' ts. processFiles muteEnv [a_pdf, b_pdf] init zero = (st', c', ts) \<and>
      map file_r (records st') = [a_pdf, b_pdf] \<and> map hash (records st') = [None, None] \<and>
      addedCount c' = 2 \<and> skippedCount c' = 0 \<and> errorCount c' = 0 \<and> ts = []"
    by auto
  with b show ?thesis by simp
qed

subsection \<open>The ids of the records\<close>




subsection \<open>Intake: the report after a batch\<close>

lemma processFiles_counts:
  "processFiles env fs st c = (st', c', ts) \<Longrightarrow>
     \<exists>a s e. c' = \<lparr>addedCount = addedCount c + a, skippedCount = skippedCount c + s,
                    errorCount = errorCount c + e\<rparr> \<and>
       length (filesArr st') = length (filesArr st) + a \<and> a + s + e \<le> length fs \<and>
       e \<le> length ts \<and> length ts \<le> e + 1"
proof (induction fs arbitrary: st c st' c' ts)
  case Nil
  then show ?case by simp
next
  case (Cons f fs)
  obtain st1 out ts1 where pf: "processFile env f st = (st1, out, ts1)"
    by (metis prod_cases3)
  show ?case
  proof (cases out)
    case Break
    with pf Cons.prems processFile_not_Added[OF pf] show ?thesis
      by (intro exI[of _ 0]) auto
  next
    case Added
    obtain st2 c2 ts2 where r: "processFiles env fs st1 (tally Added c) = (st2, c2, ts2)"
      by (metis prod_cases3)
    from processFile_Added[OF pf[unfolded Added]]
    have l1: "length (filesArr st1) = length (filesArr st) + 1" and t1: "ts1 = []"
      by (auto simp: push_def)
    from Cons.IH[OF r] obtain a s e where
      h: "c2 = \<lparr>addedCount = addedCount (tally Added c) + a,
                skippedCount = skippedCount (tally Added c) + s,
                errorCount = errorCount (tally Added c) + e\<rparr>"
         "length (filesArr st2) = length (filesArr st1) + a" "a + s + e \<le> length fs"
         "e \<le> length ts2" "length ts2 \<le> e + 1"
      by blast
    from pf r Added Cons.prems have eq: "st' = st2" "c' = c2" "ts = ts1 @ ts2" by auto
    show ?thesis
      apply (rule exI[of _ "Suc a"], rule exI[of _ s], rule exI[of _ e])
      using h eq l1 t1 by (simp add: tally_def)
  next
    case Skipped
    obtain st2 c2 ts2 where r: "processFiles env fs st1 (tally Skipped c) = (st2, c2, ts2)"
      by (metis prod_cases3)
    from processFile_not_Added[OF pf] Skipped have l1: "st1 = st" and t1: "ts1 = []"
      by auto
    from Cons.IH[OF r] obtain a s e where
      h: "c2 = \<lparr>addedCount = addedCount (tally Skipped c) + a,
                skippedCount = skippedCount (tally Skipped c) + s,
                errorCount = errorCount (tally Skipped c) + e\<rparr>"
         "length (filesArr st2) = length (filesArr st1) + a" "a + s + e \<le> length fs"
         "e \<le> length ts2" "length ts2 \<le> e + 1"
      by blast
    from pf r Skipped Cons.prems have eq: "st' = st2" "c' = c2" "ts = ts1 @ ts2" by auto
    show ?thesis
      apply (rule exI[of _ a], rule exI[of _ "Suc s"], rule exI[of _ e])
      using h eq l1 t1 by (simp add: tally_def)
  next
    case Errored
    obtain st2 c2 ts2 where r: "processFiles env fs st1 (tally Errored c) = (st2, c2, ts2)"
      by (metis prod_cases3)
    from processFile_not_Added[OF pf] Errored have l1: "st1 = st" and t1: "length ts1 = 1"
      by auto
    from Cons.IH[OF r] obtain a s e where
      h: "c2 = \<lparr>addedCount = addedCount (tally Errored c) + a,
                skippedCount = skippedCount (tally Errored c) + s,
                errorCount = errorCount (tally Errored c) + e\<rparr>"
         "length (filesArr st2) = length (filesArr st1) + a" "a + s + e \<le> length fs"
         "e \<le> length ts2" "length ts2 \<le> e + 1"
      by blast
    from pf r Errored Cons.prems have eq: "st' = st2" "c' = c2" "ts = ts1 @ ts2" by auto
    show ?thesis
      apply (rule exI[of _ a], rule exI[of _ s], rule exI[of _ "Suc e"])
      using h eq l1 t1 by (simp add: tally_def)
  qed
qed

text \<open>
  C8, as amended. For a batch that reaches the loop (some file passes the filter and the
  count limit holds), the notifications of the handler are those of the loop, all of them
  errors, one for each errored file and one more when the size cutoff ended the loop,
  followed by the report: when at least one file was added, one "Files added" naming the
  number added (the number of records appended) and, when positive, the number skipped as
  duplicates; when none was added and at least one was skipped, one "No new files" naming
  the number skipped. The number of errored files is in neither.
\<close>

theorem batch_feedback:
  assumes "filter isPdf files \<noteq> []"
    and "length (filesArr st) + length (filter isPdf files) \<le> MAX_FILE_COUNT"
    and "handleFiles env files st = (st', ts)"
  shows "\<exists>a s e per.
     processFiles env (filter isPdf files) st \<lparr>addedCount = 0, skippedCount = 0, errorCount = 0\<rparr>
       = (st', \<lparr>addedCount = a, skippedCount = s, errorCount = e\<rparr>, per) \<and>
     length (filesArr st') = length (filesArr st) + a \<and>
     a + s + e \<le> length (filter isPdf files) \<and>
     (\<forall>t\<in>set per. type_t t = error) \<and> e \<le> length per \<and> length per \<le> e + 1 \<and>
     ts = per @
       (if a > 0 then
          [showToast ''Files added''
             (showNat a @ '' file'' @ (if a > 1 then ''s'' else []) @ '' added.'' @
              (if s > 0 then '' '' @ showNat s @ '' duplicate'' @ (if s > 1 then ''s'' else [])
                               @ '' skipped.''
               else []))
             success 2500]
        else if s > 0 then
          [showToast ''No new files''
             (''All '' @ showNat s @ '' file'' @ (if s > 1 then ''s were'' else '' was'')
                @ '' already added.'')
             info 2500]
        else [])"
proof -
  let ?z = "\<lparr>addedCount = 0, skippedCount = 0, errorCount = 0\<rparr>"
  obtain st1 c per where p: "processFiles env (filter isPdf files) st ?z = (st1, c, per)"
    by (metis prod_cases3)
  from assms have files: "files \<noteq> []" by auto
  with assms p have eq: "st' = st1" "ts = per @ feedback c"
    by (auto simp: handleFiles_def Let_def)
  from processFiles_counts[OF p] obtain a s e where
    h: "c = \<lparr>addedCount = a, skippedCount = s, errorCount = e\<rparr>"
       "length (filesArr st1) = length (filesArr st) + a" "a + s + e \<le> length (filter isPdf files)"
       "e \<le> length per" "length per \<le> e + 1"
    by auto
  from processFiles_toasts[OF p] have er: "\<forall>t\<in>set per. type_t t = error" by simp
  show ?thesis
    apply (rule exI[of _ a], rule exI[of _ s], rule exI[of _ e], rule exI[of _ per])
    using p h eq er by (simp add: feedback_def Let_def)
qed

theorem batch_feedback_witness:
  "filter isPdf [a_pdf, empty_pdf, notes_txt, a_pdf, b_pdf] \<noteq> [] \<and>
   length (filesArr init) + length (filter isPdf [a_pdf, empty_pdf, notes_txt, a_pdf, b_pdf])
     \<le> MAX_FILE_COUNT \<and>
   map name (records (fst (handleFiles demoEnv [a_pdf, empty_pdf, notes_txt, a_pdf, b_pdf] init)))
     = [''a.pdf'', ''b.pdf''] \<and>
   snd (handleFiles demoEnv [a_pdf, empty_pdf, notes_txt, a_pdf, b_pdf] init) =
     [showToast ''Invalid file'' ''empty.pdf: File is empty'' error 3500,
      showToast ''Files added'' ''2 files added. 1 duplicate skipped.'' success 2500]"
proof -
  let ?batch = "[a_pdf, empty_pdf, notes_txt, a_pdf, b_pdf]"
  have f: "filter isPdf ?batch = [a_pdf, empty_pdf, a_pdf, b_pdf]"
    by (simp add: isPdf_def a_pdf_def b_pdf_def empty_pdf_def notes_txt_def endsWith_def
        toLowerCase_def lowerChar_def)
  have ne: "filter isPdf ?batch \<noteq> []" unfolding f by simp
  have le: "length (filesArr init) + length (filter isPdf ?batch) \<le> MAX_FILE_COUNT"
    unfolding f by (simp add: init_def MAX_FILE_COUNT_def)
  obtain st' ts where hf: "handleFiles demoEnv ?batch init = (st', ts)" by fastforce
  from batch_feedback[OF ne le hf] obtain a s e per where
    h: "processFiles demoEnv (filter isPdf ?batch) init
          \<lparr>addedCount = 0, skippedCount = 0, errorCount = 0\<rparr>
        = (st', \<lparr>addedCount = a, skippedCount = s, errorCount = e\<rparr>, per)"
       "ts = per @
       (if a > 0 then
          [showToast ''Files added''
             (showNat a @ '' file'' @ (if a > 1 then ''s'' else []) @ '' added.'' @
              (if s > 0 then '' '' @ showNat s @ '' duplicate'' @ (if s > 1 then ''s'' else [])
                               @ '' skipped.''
               else []))
             success 2500]
        else if s > 0 then
          [showToast ''No new files''
             (''All '' @ showNat s @ '' file'' @ (if s > 1 then ''s were'' else '' was'')
                @ '' already added.'')
             info 2500]
        else [])"
    by blast
  have p: "\<exists>h. processFiles demoEnv [a_pdf, empty_pdf, a_pdf, b_pdf] init
          \<lparr>addedCount = 0, skippedCount = 0, errorCount = 0\<rparr>
     = (\<lparr>heap = h, nextAddr = 2, filesArr = [0, 1], randomCalls = 2\<rparr>,
        \<lparr>addedCount = 2, skippedCount = 1, errorCount = 1\<rparr>,
        [showToast ''Invalid file'' ''empty.pdf: File is empty'' error 3500]) \<and>
       name (h 0) = ''a.pdf'' \<and> name (h 1) = ''b.pdf''"
    by (simp add: processFile_def validateFile_def MAX_FILE_SIZE_def MAX_TOTAL_SIZE_def
       getTotalSize_def records_def hashFile_def demoEnv_def startsWith_def uid_def slice_def
       Let_def isDuplicate_def tally_def digitChar_def byteHex_def padStart2_def init_def
       a_pdf_def b_pdf_def empty_pdf_def numeral_2_eq_2)
  with h f have "a = 2" "s = 1" "e = 1"
    "per = [showToast ''Invalid file'' ''empty.pdf: File is empty'' error 3500]"
    "map name (records st') = [''a.pdf'', ''b.pdf'']"
    by (auto simp: records_def)
  with h(2) hf ne le show ?thesis
    by (simp add: showNat.simps digitChar_def)
qed

text \<open>
  C8 as stated fails: for a batch of one empty file, which is every file of the batch
  errored, the only notification is the one for that file; no report of counts follows.
\<close>

theorem no_report_counterexample:
  "handleFiles demoEnv [empty_pdf] init =
     (init, [showToast ''Invalid file'' ''empty.pdf: File is empty'' error 3500])"
  by (simp add: handleFiles_def isPdf_def empty_pdf_def endsWith_def toLowerCase_def
       lowerChar_def Let_def MAX_FILE_COUNT_def init_def processFile_def validateFile_def
       MAX_FILE_SIZE_def feedback_def tally_def)

end
